theory Spec2Isabelle
  imports Main "HOL-Library.Word" "HOL-Library.Multiset"
begin

section \<open>Coin selection (package coinset, file coins.go)\<close>

subsection \<open>Integers, coins and errors\<close>

text \<open>
  \<^verbatim>\<open>ValueAge()\<close> returns Go's \<^verbatim>\<open>int64\<close>, a 64-bit word: \<open>+\<close> and \<open>-\<close> wrap around
  as Go's do, the comparisons of the source are the signed ones, \<open>\<le>s\<close> and \<open><s\<close>, and
  \<open>sint\<close> reads a word as the integer Go means.
\<close>

type_synonym int64 = "64 word"

text \<open>
  Modelled from the spec: the type \<^verbatim>\<open>btcutil.Amount\<close>, which the parent package declares
  (amount.go) and coins.go imports. The specification describes an amount as an integer
  value in the smallest currency unit. The source applies \<^verbatim>\<open>+=\<close>, \<^verbatim>\<open>-=\<close>, \<^verbatim>\<open>==\<close>
  and \<^verbatim>\<open>>=\<close> to it and converts it with \<^verbatim>\<open>int64(c.Amount())\<close>, so it is one of Go's
  fixed-width integers: it is the signed 64-bit integer of the parent package's
  declaration.
\<close>

type_synonym btcAmount = "64 word"

text \<open>
  A coin is an implementation of the interface \<^verbatim>\<open>Coin\<close>; the selection code reads it
  only through \<^verbatim>\<open>Amount()\<close> and \<^verbatim>\<open>ValueAge()\<close>, whose results stay constant
  (the precondition the source documents), so a coin is the pair of the two results.
\<close>

record Coin =
  Amount :: btcAmount
  ValueAge :: int64

text \<open>
  The outcomes other than a normal return. \<open>ErrCoinsNoSelectionAvailable\<close> is the
  error value of the source. \<open>PanicIndexOutOfRange\<close> and \<open>PanicMakeSliceCap\<close> are the
  run-time panics of Go for an index outside a slice and for \<^verbatim>\<open>make\<close> with a
  negative capacity. \<open>EmptySubset\<close> is named by the specification only: no statement of
  the source produces it.
\<close>

datatype error =
  ErrCoinsNoSelectionAvailable
| PanicIndexOutOfRange
| PanicMakeSliceCap
| EmptySubset

subsection \<open>The target predicate\<close>

text \<open>
  \<^verbatim>\<open>return total == target || total >= target+minChange\<close>
\<close>

definition satisfiesTargetAmount :: "btcAmount \<Rightarrow> btcAmount \<Rightarrow> btcAmount \<Rightarrow> bool" where
  "satisfiesTargetAmount target minChange tot \<longleftrightarrow>
     tot = target \<or> target + minChange \<le>s tot"

subsection \<open>Coin collections\<close>

text \<open>
  Modelled from the spec: an implementation of the interfaces \<^verbatim>\<open>Coins\<close>,
  \<^verbatim>\<open>AmountCoins\<close> and \<^verbatim>\<open>ValueAgeCoins\<close>, which coins.go declares and the caller
  implements. A collection is what the specification describes, an ordered, indexable
  sequence of coins that \<^verbatim>\<open>Swap\<close> reorders in place, backed by a slice. \<^verbatim>\<open>Len\<close> and the three indexed accessors only read; an index outside
  the sequence panics, as indexing a Go slice does. \<open>swaps\<close> records, in order, every
  call of \<^verbatim>\<open>Swap\<close> the collection has received: it is what lets a theorem say that a
  function has or has not called \<^verbatim>\<open>Swap\<close>.
\<close>

record Coins =
  elems :: "Coin list"
  swaps :: "(int \<times> int) list"

definition Len :: "Coins \<Rightarrow> int" where
  "Len c = int (length (elems c))"

definition index :: "Coin list \<Rightarrow> int \<Rightarrow> error + Coin" where
  "index xs i =
     (if 0 \<le> i \<and> i < int (length xs) then Inr (xs ! nat i) else Inl PanicIndexOutOfRange)"

definition Coin :: "Coins \<Rightarrow> int \<Rightarrow> error + Coin" where
  "Coin c i = index (elems c) i"

definition AmountCoin :: "Coins \<Rightarrow> int \<Rightarrow> error + Coin" where
  "AmountCoin c i = index (elems c) i"

definition ValueAgeCoin :: "Coins \<Rightarrow> int \<Rightarrow> error + Coin" where
  "ValueAgeCoin c i = index (elems c) i"

definition swapElems :: "Coin list \<Rightarrow> int \<times> int \<Rightarrow> Coin list" where
  "swapElems xs p =
     (case p of (i, j) \<Rightarrow>
        if 0 \<le> i \<and> i < int (length xs) \<and> 0 \<le> j \<and> j < int (length xs)
        then xs[nat i := xs ! nat j, nat j := xs ! nat i] else xs)"

definition Swap :: "int \<Rightarrow> int \<Rightarrow> Coins \<Rightarrow> (error + unit) \<times> Coins" where
  "Swap i j c =
     (if 0 \<le> i \<and> i < Len c \<and> 0 \<le> j \<and> j < Len c
      then (Inr (), \<lparr>elems = swapElems (elems c) (i, j), swaps = swaps c @ [(i, j)]\<rparr>)
      else (Inl PanicIndexOutOfRange, \<lparr>elems = elems c, swaps = swaps c @ [(i, j)]\<rparr>))"

subsection \<open>The subset accumulator\<close>

text \<open>
  \<^verbatim>\<open>type subset struct { set ValueAgeCoins; idxs []int; totalValue btcutil.Amount;
  totalValueAge int64 }\<close>. The field \<^verbatim>\<open>set\<close> is written \<open>set'\<close>.
  A method that can panic returns its outcome together with the subset as the panic
  leaves it, so that what a failed call has and has not changed can be stated.
\<close>

record subset =
  set' :: Coins
  idxs :: "int list"
  totalValue :: btcAmount
  totalValueAge :: int64

text \<open>
  The loop of \<^verbatim>\<open>newSubset\<close>:
  \<^verbatim>\<open>for _, i := range idxs { coin := coins.Coin(i); s.totalValue += coin.Amount();
  s.totalValueAge += coin.ValueAge() }\<close>
\<close>

fun newSubsetLoop :: "Coins \<Rightarrow> int list \<Rightarrow> subset \<Rightarrow> error + subset" where
  "newSubsetLoop coins [] s = Inr s"
| "newSubsetLoop coins (i # rest) s =
     (case Coin coins i of
        Inl e \<Rightarrow> Inl e
      | Inr coin \<Rightarrow>
          newSubsetLoop coins rest
            (s\<lparr>totalValue := totalValue s + Amount coin,
               totalValueAge := totalValueAge s + ValueAge coin\<rparr>))"

definition newSubset :: "Coins \<Rightarrow> int list \<Rightarrow> error + subset" where
  "newSubset coins ixs =
     newSubsetLoop coins ixs \<lparr>set' = coins, idxs = ixs, totalValue = 0, totalValueAge = 0\<rparr>"

text \<open>
  \<^verbatim>\<open>s.idxs = append(s.idxs, i); c := s.set.ValueAgeCoin(i); s.totalValue += c.Amount();
  s.totalValueAge += c.ValueAge()\<close>: the index is appended before the coin is read.
\<close>

definition pushBack :: "int \<Rightarrow> subset \<Rightarrow> (error + unit) \<times> subset" where
  "pushBack i s =
     (let s1 = s\<lparr>idxs := idxs s @ [i]\<rparr> in
      case ValueAgeCoin (set' s1) i of
        Inl e \<Rightarrow> (Inl e, s1)
      | Inr c \<Rightarrow>
          (Inr (), s1\<lparr>totalValue := totalValue s1 + Amount c,
                       totalValueAge := totalValueAge s1 + ValueAge c\<rparr>))"

text \<open>
  \<^verbatim>\<open>s.totalValue -= c.Amount(); s.totalValueAge -= c.ValueAge()\<close>
\<close>

definition subTotals :: "Coin \<Rightarrow> subset \<Rightarrow> subset" where
  "subTotals c s =
     s\<lparr>totalValue := totalValue s - Amount c, totalValueAge := totalValueAge s - ValueAge c\<rparr>"

text \<open>
  \<^verbatim>\<open>i := s.idxs[len(s.idxs) - 1]; back := s.set.ValueAgeCoin(i);
  s.idxs = s.idxs[:len(s.idxs)-1]; s.subTotals(back); return back\<close>.
  On an empty \<^verbatim>\<open>idxs\<close> the first statement indexes the slice at \<open>-1\<close> and panics.
\<close>

definition popBack :: "subset \<Rightarrow> (error + Coin) \<times> subset" where
  "popBack s =
     (if idxs s = [] then (Inl PanicIndexOutOfRange, s)
      else
        let i = last (idxs s) in
        case ValueAgeCoin (set' s) i of
          Inl e \<Rightarrow> (Inl e, s)
        | Inr back \<Rightarrow> (Inr back, subTotals back (s\<lparr>idxs := butlast (idxs s)\<rparr>)))"

text \<open>
  \<^verbatim>\<open>i := s.idxs[0]; s.idxs = s.idxs[1:]; front := s.set.ValueAgeCoin(i);
  s.subTotals(front); return front\<close>.
  On an empty \<^verbatim>\<open>idxs\<close> the first statement indexes the slice at \<open>0\<close> and panics.
\<close>

definition popFront :: "subset \<Rightarrow> (error + Coin) \<times> subset" where
  "popFront s =
     (if idxs s = [] then (Inl PanicIndexOutOfRange, s)
      else
        let i = hd (idxs s); s1 = s\<lparr>idxs := tl (idxs s)\<rparr> in
        case ValueAgeCoin (set' s1) i of
          Inl e \<Rightarrow> (Inl e, s1)
        | Inr front \<Rightarrow> (Inr front, subTotals front s1))"

definition indexes :: "subset \<Rightarrow> int list" where
  "indexes s = idxs s"

text \<open>
  A sequence of operations on a subset, run until the first panic.
\<close>

datatype subsetOp = PushBack int | PopBack | PopFront

fun applyOp :: "subsetOp \<Rightarrow> subset \<Rightarrow> (error + unit) \<times> subset" where
  "applyOp (PushBack i) s = pushBack i s"
| "applyOp PopBack s = (case popBack s of (Inl e, s') \<Rightarrow> (Inl e, s') | (Inr c, s') \<Rightarrow> (Inr (), s'))"
| "applyOp PopFront s = (case popFront s of (Inl e, s') \<Rightarrow> (Inl e, s') | (Inr c, s') \<Rightarrow> (Inr (), s'))"

fun applyOps :: "subsetOp list \<Rightarrow> subset \<Rightarrow> (error + unit) \<times> subset" where
  "applyOps [] s = (Inr (), s)"
| "applyOps (op # ops) s =
     (case applyOp op s of (Inl e, s') \<Rightarrow> (Inl e, s') | (Inr u, s') \<Rightarrow> applyOps ops s')"

text \<open>
  What the preconditions of a sequence say: no pop meets an empty subset (\<open>n\<close> is the
  number of indices the subset holds), and every index pushed is one of the collection.
\<close>

fun popsNonEmpty :: "nat \<Rightarrow> subsetOp list \<Rightarrow> bool" where
  "popsNonEmpty n [] = True"
| "popsNonEmpty n (PushBack i # ops) = popsNonEmpty (Suc n) ops"
| "popsNonEmpty n (PopBack # ops) = (0 < n \<and> popsNonEmpty (n - 1) ops)"
| "popsNonEmpty n (PopFront # ops) = (0 < n \<and> popsNonEmpty (n - 1) ops)"

fun pushedIdxs :: "subsetOp list \<Rightarrow> int list" where
  "pushedIdxs [] = []"
| "pushedIdxs (PushBack i # ops) = i # pushedIdxs ops"
| "pushedIdxs (PopBack # ops) = pushedIdxs ops"
| "pushedIdxs (PopFront # ops) = pushedIdxs ops"

definition inRange :: "Coins \<Rightarrow> int \<Rightarrow> bool" where
  "inRange c i \<longleftrightarrow> 0 \<le> i \<and> i < Len c"

text \<open>
  The independent recomputation of the two totals: the sums of \<^verbatim>\<open>Amount()\<close> and of
  \<^verbatim>\<open>ValueAge()\<close> over the indices, with Go's wrapping addition.
\<close>

definition sumAmount :: "Coins \<Rightarrow> int list \<Rightarrow> btcAmount" where
  "sumAmount c ixs = sum_list (map (\<lambda>i. Amount (elems c ! nat i)) ixs)"

definition sumValueAge :: "Coins \<Rightarrow> int list \<Rightarrow> int64" where
  "sumValueAge c ixs = sum_list (map (\<lambda>i. ValueAge (elems c ! nat i)) ixs)"

text \<open>
  The invariant of the accumulator over the collection \<open>coins\<close>: the subset refers to
  \<open>coins\<close>, its indices are indices of \<open>coins\<close>, and the two cached totals are the
  recomputed sums.
\<close>

definition subsetInv :: "Coins \<Rightarrow> subset \<Rightarrow> bool" where
  "subsetInv coins s \<longleftrightarrow>
     set' s = coins \<and> (\<forall>i \<in> set (idxs s). inRange coins i) \<and>
     totalValue s = sumAmount coins (idxs s) \<and>
     totalValueAge s = sumValueAge coins (idxs s)"

subsection \<open>Selection arguments and the scan in index order\<close>

record Args =
  MaxInputs :: int
  MinChangeAmount :: btcAmount

text \<open>
  The loop of \<^verbatim>\<open>SelectMinIndex\<close>:
  \<^verbatim>\<open>for i := 0; i < numCoins && i < a.MaxInputs; i++ { coin := coins.AmountCoin(i);
  sel = append(sel, coin); total += coin.Amount();
  if satisfiesTargetAmount(target, a.MinChangeAmount, total) { idxs := make([]int, len(sel));
  for i := range sel { idxs[i] = i }; return idxs, nil } }
  return nil, ErrCoinsNoSelectionAvailable\<close>.
  The running total is \<open>tot\<close>.
\<close>

function selectLoop ::
  "Args \<Rightarrow> btcAmount \<Rightarrow> Coins \<Rightarrow> int \<Rightarrow> nat \<Rightarrow> Coin list \<Rightarrow> btcAmount \<Rightarrow> error + int list"
where
  "selectLoop a target coins numCoins i sel tot =
     (if int i < numCoins \<and> int i < MaxInputs a then
        (case AmountCoin coins (int i) of
           Inl e \<Rightarrow> Inl e
         | Inr coin \<Rightarrow>
             if satisfiesTargetAmount target (MinChangeAmount a) (tot + Amount coin)
             then Inr (map int [0..<length (sel @ [coin])])
             else selectLoop a target coins numCoins (Suc i) (sel @ [coin]) (tot + Amount coin))
      else Inl ErrCoinsNoSelectionAvailable)"
  by pat_completeness auto
termination
  by (relation "measure (\<lambda>(a, target, coins, numCoins, i, sel, tot). nat numCoins - i)") auto

text \<open>
  \<^verbatim>\<open>sel := make([]AmountCoin, 0, a.MaxInputs)\<close> comes first: \<^verbatim>\<open>make\<close> with a length
  above the capacity is a run-time panic, so a negative \<^verbatim>\<open>MaxInputs\<close> panics before the
  collection is read. For a capacity that is not negative the allocation is taken to
  succeed: running out of memory is outside the model. The collection is returned as the
  call leaves it.
\<close>

definition SelectMinIndex :: "Args \<Rightarrow> btcAmount \<Rightarrow> Coins \<Rightarrow> (error + int list) \<times> Coins" where
  "SelectMinIndex a target coins =
     (if MaxInputs a < 0 then (Inl PanicMakeSliceCap, coins)
      else (selectLoop a target coins (Len coins) 0 [] 0, coins))"


subsection \<open>Sorting\<close>

text \<open>
  \<^verbatim>\<open>byAmount.Less\<close> and \<^verbatim>\<open>byValueAge.Less\<close> compare two positions of the collection
  with the signed \<^verbatim>\<open><\<close> of Go; \<^verbatim>\<open>sort.Reverse\<close> exchanges the two arguments.
\<close>

type_synonym lessFn = "int \<Rightarrow> int \<Rightarrow> Coins \<Rightarrow> error + bool"

definition byValueAge_Less :: lessFn where
  "byValueAge_Less i j c =
     (case ValueAgeCoin c i of
        Inl e \<Rightarrow> Inl e
      | Inr ci \<Rightarrow> (case ValueAgeCoin c j of
                     Inl e \<Rightarrow> Inl e
                   | Inr cj \<Rightarrow> Inr (ValueAge ci <s ValueAge cj)))"

definition byAmount_Less :: lessFn where
  "byAmount_Less i j c =
     (case AmountCoin c i of
        Inl e \<Rightarrow> Inl e
      | Inr ci \<Rightarrow> (case AmountCoin c j of
                     Inl e \<Rightarrow> Inl e
                   | Inr cj \<Rightarrow> Inr (Amount ci <s Amount cj)))"

definition Reverse :: "lessFn \<Rightarrow> lessFn" where
  "Reverse lessf i j c = lessf j i c"

text \<open>
  \<^verbatim>\<open>sort.Sort\<close> belongs to Go's standard library. It reads the collection through
  \<^verbatim>\<open>Len\<close> and \<^verbatim>\<open>Less\<close> and changes it through \<^verbatim>\<open>Swap\<close> only, it leaves the collection
  in ascending order of \<^verbatim>\<open>Less\<close>, and it is not stable. It is modelled by the insertion
  sort the library runs on a short range,
  \<^verbatim>\<open>for i := a + 1; i < b; i++ { for j := i; j > a && data.Less(j, j-1); j-- {
  data.Swap(j, j-1) } }\<close>, called with \<open>a = 0\<close> and \<open>b = data.Len()\<close>. On a long
  collection the library sorts by other exchanges, which may leave coins of equal key in
  another order.
\<close>

function insertionInner :: "lessFn \<Rightarrow> nat \<Rightarrow> nat \<Rightarrow> Coins \<Rightarrow> (error + unit) \<times> Coins" where
  "insertionInner lessf a j c =
     (if a < j then
        (case lessf (int j) (int j - 1) c of
           Inl e \<Rightarrow> (Inl e, c)
         | Inr b \<Rightarrow>
             if b then
               (case Swap (int j) (int j - 1) c of
                  (Inl e, c') \<Rightarrow> (Inl e, c')
                | (Inr u, c') \<Rightarrow> insertionInner lessf a (j - 1) c')
             else (Inr (), c))
      else (Inr (), c))"
  by pat_completeness auto
termination
  by (relation "measure (\<lambda>(lessf, a, j, c). j)") auto

function insertionOuter :: "lessFn \<Rightarrow> nat \<Rightarrow> nat \<Rightarrow> nat \<Rightarrow> Coins \<Rightarrow> (error + unit) \<times> Coins" where
  "insertionOuter lessf a b i c =
     (if i < b then
        (case insertionInner lessf a i c of
           (Inl e, c') \<Rightarrow> (Inl e, c')
         | (Inr u, c') \<Rightarrow> insertionOuter lessf a b (Suc i) c')
      else (Inr (), c))"
  by pat_completeness auto
termination
  by (relation "measure (\<lambda>(lessf, a, b, i, c). b - i)") auto

declare insertionInner.simps [simp del]

declare insertionOuter.simps [simp del]

definition insertionSort :: "lessFn \<Rightarrow> nat \<Rightarrow> nat \<Rightarrow> Coins \<Rightarrow> (error + unit) \<times> Coins" where
  "insertionSort lessf a b c = insertionOuter lessf a b (a + 1) c"

definition sort_Sort :: "lessFn \<Rightarrow> Coins \<Rightarrow> (error + unit) \<times> Coins" where
  "sort_Sort lessf c = insertionSort lessf 0 (nat (Len c)) c"

text \<open>
  What the theorems about sorting speak of. A comparison \<open>lessf\<close> compares by \<open>key\<close>
  when, on two positions of the collection, it returns whether the key of the first coin
  is below the key of the second. \<open>sinkInto key x rs\<close> is where the inner loop leaves
  the coin \<open>x\<close> among the coins before it, \<open>rs\<close>, listed from the nearest one, and
  \<open>sinkSwaps key x rs\<close> is the calls of \<^verbatim>\<open>Swap\<close> it makes on the way.
\<close>

definition comparesBy :: "(Coin \<Rightarrow> int) \<Rightarrow> lessFn \<Rightarrow> bool" where
  "comparesBy key lessf \<longleftrightarrow>
     (\<forall>c i j. i < length (elems c) \<longrightarrow> j < length (elems c) \<longrightarrow>
        lessf (int i) (int j) c = Inr (key (elems c ! i) < key (elems c ! j)))"

fun sinkInto :: "(Coin \<Rightarrow> int) \<Rightarrow> Coin \<Rightarrow> Coin list \<Rightarrow> Coin list" where
  "sinkInto key x [] = [x]"
| "sinkInto key x (y # rs) = (if key x < key y then y # sinkInto key x rs else x # y # rs)"

fun sinkSwaps :: "(Coin \<Rightarrow> int) \<Rightarrow> Coin \<Rightarrow> Coin list \<Rightarrow> (int \<times> int) list" where
  "sinkSwaps key x [] = []"
| "sinkSwaps key x (y # rs) =
     (if key x < key y then (int (Suc (length rs)), int (length rs)) # sinkSwaps key x rs else [])"

text \<open>
  The order of a sequence of coins by amount or by value-age, compared as Go compares
  signed integers, and what it means that a collection has been reordered in place: it
  holds the same coins, and its coins are those of the collection before, exchanged by
  the calls of \<^verbatim>\<open>Swap\<close> recorded since.
\<close>

definition nonIncreasing :: "(Coin \<Rightarrow> int64) \<Rightarrow> Coin list \<Rightarrow> bool" where
  "nonIncreasing f xs \<longleftrightarrow> sorted_wrt (\<lambda>x y. f y \<le>s f x) xs"

definition nonDecreasing :: "(Coin \<Rightarrow> int64) \<Rightarrow> Coin list \<Rightarrow> bool" where
  "nonDecreasing f xs \<longleftrightarrow> sorted_wrt (\<lambda>x y. f x \<le>s f y) xs"

definition reorderedBySwaps :: "Coins \<Rightarrow> Coins \<Rightarrow> bool" where
  "reorderedBySwaps coins coins' \<longleftrightarrow>
     mset (elems coins') = mset (elems coins) \<and>
     take (length (swaps coins)) (swaps coins') = swaps coins \<and>
     foldl swapElems (elems coins) (drop (length (swaps coins)) (swaps coins')) = elems coins'"

subsection \<open>The selection policies\<close>

text \<open>
  \<^verbatim>\<open>sort.Sort(sort.Reverse(byAmount{coins})); return a.SelectMinIndex(target, coins)\<close>
\<close>

definition MinNumberSelect :: "Args \<Rightarrow> btcAmount \<Rightarrow> Coins \<Rightarrow> (error + int list) \<times> Coins" where
  "MinNumberSelect a target coins =
     (case sort_Sort (Reverse byAmount_Less) coins of
        (Inl e, coins') \<Rightarrow> (Inl e, coins')
      | (Inr u, coins') \<Rightarrow> SelectMinIndex a target coins')"

text \<open>
  \<^verbatim>\<open>sort.Sort(sort.Reverse(byValueAge{coins})); return a.SelectMinIndex(target, coins)\<close>
\<close>

definition MaxValueAgeSelect :: "Args \<Rightarrow> btcAmount \<Rightarrow> Coins \<Rightarrow> (error + int list) \<times> Coins" where
  "MaxValueAgeSelect a target coins =
     (case sort_Sort (Reverse byValueAge_Less) coins of
        (Inl e, coins') \<Rightarrow> (Inl e, coins')
      | (Inr u, coins') \<Rightarrow> SelectMinIndex a target coins')"

text \<open>
  The search for the cut-off of \<^verbatim>\<open>MinPrioritySelect\<close>:
  \<^verbatim>\<open>cutoffIndex := -1; for i := 0; i < numCoins; i++ {
  if coins.ValueAgeCoin(i).ValueAge() >= minAvgValueAgePerInput { cutoffIndex = i; break } }\<close>
\<close>

function findCutoff :: "int64 \<Rightarrow> Coins \<Rightarrow> int \<Rightarrow> nat \<Rightarrow> error + int" where
  "findCutoff minAvgValueAgePerInput coins numCoins i =
     (if int i < numCoins then
        (case ValueAgeCoin coins (int i) of
           Inl e \<Rightarrow> Inl e
         | Inr c \<Rightarrow>
             if minAvgValueAgePerInput \<le>s ValueAge c then Inr (int i)
             else findCutoff minAvgValueAgePerInput coins numCoins (Suc i))
      else Inr (- 1))"
  by pat_completeness auto
termination
  by (relation "measure (\<lambda>(m, coins, numCoins, i). nat numCoins - i)") auto

text \<open>
  \<^verbatim>\<open>MinPrioritySelect\<close> sorts the collection ascending by value-age, searches the
  cut-off and returns \<^verbatim>\<open>ErrCoinsNoSelectionAvailable\<close> when there is none (lines 213 to
  226 of coins.go). The loop over the windows that follows (lines 228 to 285) is not
  well-typed Go: it slices the interface value \<^verbatim>\<open>coins\<close>, reads the unbound names
  \<^verbatim>\<open>targetValue\<close>, \<^verbatim>\<open>newTargetVAlue\<close> and \<^verbatim>\<open>s\<close>, calls \<^verbatim>\<open>NewCoinSet\<close>,
  \<^verbatim>\<open>PushCoin\<close> and \<^verbatim>\<open>PopCoin\<close>, which no source file declares, and returns a coin
  set where an index list is declared. It is the parameter \<open>windows\<close>, which receives
  everything the loop can read: the arguments, the sorted collection, the cut-off and
  the number of coins.
\<close>

type_synonym windowsFn =
  "Args \<Rightarrow> int64 \<Rightarrow> btcAmount \<Rightarrow> Coins \<Rightarrow> int \<Rightarrow> int \<Rightarrow> (error + int list) \<times> Coins"

definition MinPrioritySelect ::
  "windowsFn \<Rightarrow> Args \<Rightarrow> int64 \<Rightarrow> btcAmount \<Rightarrow> Coins \<Rightarrow> (error + int list) \<times> Coins"
where
  "MinPrioritySelect windows a minAvgValueAgePerInput target coins =
     (case sort_Sort byValueAge_Less coins of
        (Inl e, coins') \<Rightarrow> (Inl e, coins')
      | (Inr u, coins') \<Rightarrow>
          (case findCutoff minAvgValueAgePerInput coins' (Len coins') 0 of
             Inl e \<Rightarrow> (Inl e, coins')
           | Inr cutoffIndex \<Rightarrow>
               if cutoffIndex < 0 then (Inl ErrCoinsNoSelectionAvailable, coins')
               else windows a minAvgValueAgePerInput target coins' cutoffIndex (Len coins')))"

section \<open>Properties\<close>

subsection \<open>Signed 64-bit arithmetic\<close>

lemma sint_add_no_overflow:
  fixes a b :: "64 word"
  assumes "- (2 ^ 63) \<le> sint a + sint b" and "sint a + sint b < 2 ^ 63"
  shows "sint (a + b) = sint a + sint b"
  using assms by (simp add: sint_word_ariths signed_take_bit_int_eq_self)

lemma sint_eq_iff:
  fixes a b :: "64 word"
  shows "sint a = sint b \<longleftrightarrow> a = b"
  by (auto intro: signed_word_eqI)

lemma sum_list_word_of_int:
  fixes ws :: "64 word list"
  shows "sum_list ws = word_of_int (sum_list (map sint ws))"
  by (induction ws) simp_all

lemma sint_sum_list:
  fixes ws :: "64 word list"
  assumes "- (2 ^ 63) \<le> sum_list (map sint ws)" and "sum_list (map sint ws) < 2 ^ 63"
  shows "sint (sum_list ws) = sum_list (map sint ws)"
proof -
  have "sint (sum_list ws) = signed_take_bit 63 (sum_list (map sint ws))"
    by (subst sum_list_word_of_int) (simp add: sint_sbintrunc')
  with assms show ?thesis
    by (simp add: signed_take_bit_int_eq_self)
qed

subsection \<open>Reading the collection\<close>

lemma index_Inr_iff:
  "index xs i = Inr c \<longleftrightarrow> 0 \<le> i \<and> i < int (length xs) \<and> c = xs ! nat i"
  by (auto simp add: index_def)

lemma index_Inl_iff:
  "index xs i = Inl e \<longleftrightarrow> \<not> (0 \<le> i \<and> i < int (length xs)) \<and> e = PanicIndexOutOfRange"
  by (auto simp add: index_def)

lemma ValueAgeCoin_inRange:
  "inRange c i \<Longrightarrow> ValueAgeCoin c i = Inr (elems c ! nat i)"
  by (simp add: ValueAgeCoin_def index_def inRange_def Len_def)

lemma ValueAgeCoin_Inr:
  "ValueAgeCoin c i = Inr x \<Longrightarrow> inRange c i \<and> x = elems c ! nat i"
  by (simp add: ValueAgeCoin_def index_Inr_iff inRange_def Len_def)

lemma Coin_inRange:
  "inRange c i \<Longrightarrow> Coin c i = Inr (elems c ! nat i)"
  by (simp add: Coin_def index_def inRange_def Len_def)

lemma Coin_Inr:
  "Coin c i = Inr x \<Longrightarrow> inRange c i \<and> x = elems c ! nat i"
  by (simp add: Coin_def index_Inr_iff inRange_def Len_def)

subsection \<open>The target predicate\<close>

text \<open>
  Claim C2, for amounts whose sum fits. For all non-negative \<open>target\<close>, \<open>minChange\<close>
  and \<open>tot\<close> such that \<open>target + minChange\<close> does not exceed the largest signed
  64-bit integer, \<open>satisfiesTargetAmount target minChange tot\<close> holds if and only if
  \<open>tot\<close> equals \<open>target\<close> or the integer difference \<open>tot - target\<close> is at least
  \<open>minChange\<close>.
\<close>

theorem satisfiesTargetAmount_iff:
  assumes "0 \<le>s target" and "0 \<le>s minChange" and "0 \<le>s tot"
    and "sint target + sint minChange < 2 ^ 63"
  shows "satisfiesTargetAmount target minChange tot \<longleftrightarrow>
           tot = target \<or> sint minChange \<le> sint tot - sint target"
proof -
  from assms have "sint (target + minChange) = sint target + sint minChange"
    by (intro sint_add_no_overflow) (simp_all add: word_sle_eq)
  then show ?thesis
    by (auto simp add: satisfiesTargetAmount_def word_sle_eq)
qed

theorem satisfiesTargetAmount_iff_witness:
  "0 \<le>s (700 :: btcAmount) \<and> 0 \<le>s (50 :: btcAmount) \<and> 0 \<le>s (900 :: btcAmount) \<and>
   sint (700 :: btcAmount) + sint (50 :: btcAmount) < 2 ^ 63 \<and>
   (satisfiesTargetAmount 700 50 900 \<longleftrightarrow>
      (900 :: btcAmount) = 700 \<or> sint (50 :: btcAmount) \<le> sint (900 :: btcAmount) - sint (700 :: btcAmount)) \<and>
   satisfiesTargetAmount 700 50 900"
proof -
  have h1: "0 \<le>s (700 :: btcAmount)" and h2: "0 \<le>s (50 :: btcAmount)"
    and h3: "0 \<le>s (900 :: btcAmount)"
    by (simp_all add: word_sle_eq)
  have h4: "sint (700 :: btcAmount) + sint (50 :: btcAmount) < 2 ^ 63"
    by simp
  have h5: "sint (50 :: btcAmount) \<le> sint (900 :: btcAmount) - sint (700 :: btcAmount)"
    by simp
  from satisfiesTargetAmount_iff [OF h1 h2 h3 h4] h1 h2 h3 h4 h5 show ?thesis
    by blast
qed

text \<open>
  Claim C2 as it is written fails where \<open>target + minChange\<close> wraps around. With
  \<open>target = minChange = 2\<^sup>6\<^sup>2\<close> the sum is \<open>2\<^sup>6\<^sup>3\<close>, which Go's 64-bit addition
  turns into \<open>- 2\<^sup>6\<^sup>3\<close>; a total of \<open>0\<close> is not below it, so the predicate holds,
  although \<open>0\<close> is neither the target nor at least \<open>minChange\<close> above it.
\<close>

theorem satisfiesTargetAmount_overflow_counterexample:
  "0 \<le>s (4611686018427387904 :: btcAmount) \<and> 0 \<le>s (0 :: btcAmount) \<and>
   satisfiesTargetAmount 4611686018427387904 4611686018427387904 0 \<and>
   \<not> ((0 :: btcAmount) = 4611686018427387904 \<or>
      sint (4611686018427387904 :: btcAmount)
        \<le> sint (0 :: btcAmount) - sint (4611686018427387904 :: btcAmount))"
  by (simp add: satisfiesTargetAmount_def word_sle_eq)

subsection \<open>The subset accumulator\<close>

lemma newSubsetLoop_Inr:
  "newSubsetLoop coins ixs s = Inr s' \<Longrightarrow>
     (\<forall>i \<in> set ixs. inRange coins i) \<and>
     s' = s\<lparr>totalValue := totalValue s + sumAmount coins ixs,
            totalValueAge := totalValueAge s + sumValueAge coins ixs\<rparr>"
proof (induction ixs arbitrary: s)
  case Nil
  then show ?case by (simp add: sumAmount_def sumValueAge_def)
next
  case (Cons i ixs)
  from Cons.prems obtain x where x: "Coin coins i = Inr x"
    and rest: "newSubsetLoop coins ixs
      (s\<lparr>totalValue := totalValue s + Amount x, totalValueAge := totalValueAge s + ValueAge x\<rparr>) = Inr s'"
    by (auto split: sum.splits)
  from Coin_Inr [OF x] Cons.IH [OF rest] show ?case
    by (simp add: sumAmount_def sumValueAge_def add.assoc)
qed

lemma newSubsetLoop_total:
  "\<forall>i \<in> set ixs. inRange coins i \<Longrightarrow> \<exists>s'. newSubsetLoop coins ixs s = Inr s'"
  by (induction ixs arbitrary: s) (simp_all add: Coin_inRange)

lemma newSubset_inv:
  assumes "newSubset coins ixs = Inr s"
  shows "subsetInv coins s \<and> idxs s = ixs"
  using newSubsetLoop_Inr [OF assms [unfolded newSubset_def]]
  by (simp add: subsetInv_def)

lemma sumAmount_snoc: "sumAmount c (ixs @ [i]) = sumAmount c ixs + Amount (elems c ! nat i)"
  by (simp add: sumAmount_def)

lemma sumValueAge_snoc: "sumValueAge c (ixs @ [i]) = sumValueAge c ixs + ValueAge (elems c ! nat i)"
  by (simp add: sumValueAge_def)

lemma sumAmount_Cons: "sumAmount c (i # ixs) = Amount (elems c ! nat i) + sumAmount c ixs"
  by (simp add: sumAmount_def)

lemma sumValueAge_Cons: "sumValueAge c (i # ixs) = ValueAge (elems c ! nat i) + sumValueAge c ixs"
  by (simp add: sumValueAge_def)

text \<open>
  Where the sum of the integers fits in 64 bits, the wrapping sum is that sum.
\<close>

lemma sumAmount_exact:
  assumes "- (2 ^ 63) \<le> (\<Sum>i\<leftarrow>ixs. sint (Amount (elems c ! nat i)))"
    and "(\<Sum>i\<leftarrow>ixs. sint (Amount (elems c ! nat i))) < 2 ^ 63"
  shows "sint (sumAmount c ixs) = (\<Sum>i\<leftarrow>ixs. sint (Amount (elems c ! nat i)))"
  using sint_sum_list [of "map (\<lambda>i. Amount (elems c ! nat i)) ixs"] assms
  by (simp add: sumAmount_def comp_def)

lemma sumValueAge_exact:
  assumes "- (2 ^ 63) \<le> (\<Sum>i\<leftarrow>ixs. sint (ValueAge (elems c ! nat i)))"
    and "(\<Sum>i\<leftarrow>ixs. sint (ValueAge (elems c ! nat i))) < 2 ^ 63"
  shows "sint (sumValueAge c ixs) = (\<Sum>i\<leftarrow>ixs. sint (ValueAge (elems c ! nat i)))"
  using sint_sum_list [of "map (\<lambda>i. ValueAge (elems c ! nat i)) ixs"] assms
  by (simp add: sumValueAge_def comp_def)

lemma pushBack_inv:
  assumes "subsetInv coins s" and "pushBack i s = (Inr u, s')"
  shows "subsetInv coins s' \<and> idxs s' = idxs s @ [i]"
proof -
  from assms(2) obtain x where x: "ValueAgeCoin (set' s) i = Inr x"
    and s': "s' = s\<lparr>idxs := idxs s @ [i], totalValue := totalValue s + Amount x,
                    totalValueAge := totalValueAge s + ValueAge x\<rparr>"
    by (auto simp add: pushBack_def Let_def split: sum.splits)
  from ValueAgeCoin_Inr [OF x] assms(1) s' show ?thesis
    by (simp add: subsetInv_def sumAmount_snoc sumValueAge_snoc)
qed

lemma pushBack_total:
  assumes "set' s = coins" and "inRange coins i"
  shows "\<exists>s'. pushBack i s = (Inr (), s')"
  using assms by (simp add: pushBack_def Let_def ValueAgeCoin_inRange)

lemma popBack_inv:
  assumes "subsetInv coins s" and "popBack s = (Inr x, s')"
  shows "subsetInv coins s' \<and> idxs s' = butlast (idxs s) \<and> idxs s \<noteq> []"
proof (cases "idxs s" rule: rev_cases)
  case Nil
  with assms(2) show ?thesis
    by (simp add: popBack_def)
next
  case (snoc ys y)
  with assms(2) have x: "ValueAgeCoin (set' s) y = Inr x"
    and s': "s' = subTotals x (s\<lparr>idxs := ys\<rparr>)"
    by (auto simp add: popBack_def Let_def split: sum.splits)
  from ValueAgeCoin_Inr [OF x] assms(1) s' snoc show ?thesis
    by (simp add: subsetInv_def subTotals_def sumAmount_snoc sumValueAge_snoc)
qed

lemma popBack_total:
  assumes "subsetInv coins s" and "idxs s \<noteq> []"
  shows "\<exists>x s'. popBack s = (Inr x, s')"
proof -
  from assms have "inRange (set' s) (last (idxs s))"
    by (simp add: subsetInv_def)
  with assms(2) show ?thesis
    by (simp add: popBack_def Let_def ValueAgeCoin_inRange)
qed

lemma popFront_inv:
  assumes "subsetInv coins s" and "popFront s = (Inr x, s')"
  shows "subsetInv coins s' \<and> idxs s' = tl (idxs s) \<and> idxs s \<noteq> []"
proof (cases "idxs s")
  case Nil
  with assms(2) show ?thesis
    by (simp add: popFront_def)
next
  case (Cons y ys)
  with assms(2) have x: "ValueAgeCoin (set' s) y = Inr x"
    and s': "s' = subTotals x (s\<lparr>idxs := ys\<rparr>)"
    by (auto simp add: popFront_def Let_def split: sum.splits)
  from ValueAgeCoin_Inr [OF x] assms(1) s' Cons show ?thesis
    by (simp add: subsetInv_def subTotals_def sumAmount_Cons sumValueAge_Cons)
qed

lemma popFront_total:
  assumes "subsetInv coins s" and "idxs s \<noteq> []"
  shows "\<exists>x s'. popFront s = (Inr x, s')"
proof -
  from assms have "inRange (set' s) (hd (idxs s))"
    by (simp add: subsetInv_def)
  with assms(2) show ?thesis
    by (simp add: popFront_def Let_def ValueAgeCoin_inRange)
qed


lemma applyOp_inv:
  assumes "subsetInv coins s" and "applyOp op s = (Inr u, s')"
  shows "subsetInv coins s'"
proof (cases op)
  case (PushBack i)
  with assms pushBack_inv [of coins s i u s'] show ?thesis by simp
next
  case PopBack
  with assms(2) obtain x where "popBack s = (Inr x, s')"
    by (auto split: prod.splits sum.splits)
  with assms(1) popBack_inv show ?thesis by blast
next
  case PopFront
  with assms(2) obtain x where "popFront s = (Inr x, s')"
    by (auto split: prod.splits sum.splits)
  with assms(1) popFront_inv show ?thesis by blast
qed

lemma applyOps_inv:
  "subsetInv coins s \<Longrightarrow> applyOps ops s = (Inr u, s') \<Longrightarrow> subsetInv coins s'"
proof (induction ops arbitrary: s)
  case Nil
  then show ?case by simp
next
  case (Cons op ops)
  from Cons.prems(2) obtain v s1 where step: "applyOp op s = (Inr v, s1)"
    and rest: "applyOps ops s1 = (Inr u, s')"
    by (auto split: prod.splits sum.splits)
  from applyOp_inv [OF Cons.prems(1) step] rest show ?case
    by (rule Cons.IH)
qed

lemma applyOps_total:
  "subsetInv coins s \<Longrightarrow> popsNonEmpty (length (idxs s)) ops \<Longrightarrow>
   \<forall>i \<in> set (pushedIdxs ops). inRange coins i \<Longrightarrow> \<exists>s'. applyOps ops s = (Inr (), s')"
proof (induction ops arbitrary: s)
  case Nil
  then show ?case by simp
next
  case (Cons op ops)
  show ?case
  proof (cases op)
    case (PushBack i)
    from Cons.prems PushBack have "set' s = coins" and "inRange coins i"
      by (simp_all add: subsetInv_def)
    from pushBack_total [OF this] obtain s1 where s1: "pushBack i s = (Inr (), s1)" ..
    from pushBack_inv [OF Cons.prems(1) s1] have inv1: "subsetInv coins s1"
      and len: "length (idxs s1) = Suc (length (idxs s))" by simp_all
    from Cons.prems PushBack len have "popsNonEmpty (length (idxs s1)) ops"
      and "\<forall>i \<in> set (pushedIdxs ops). inRange coins i" by simp_all
    from Cons.IH [OF inv1 this] s1 PushBack show ?thesis by simp
  next
    case PopBack
    with Cons.prems have ne: "idxs s \<noteq> []" by auto
    from popBack_total [OF Cons.prems(1) ne] obtain x s1
      where s1: "popBack s = (Inr x, s1)" by blast
    from popBack_inv [OF Cons.prems(1) s1] have inv1: "subsetInv coins s1"
      and len: "length (idxs s1) = length (idxs s) - 1" by simp_all
    from Cons.prems PopBack len have "popsNonEmpty (length (idxs s1)) ops"
      and "\<forall>i \<in> set (pushedIdxs ops). inRange coins i" by simp_all
    from Cons.IH [OF inv1 this] s1 PopBack show ?thesis by simp
  next
    case PopFront
    with Cons.prems have ne: "idxs s \<noteq> []" by auto
    from popFront_total [OF Cons.prems(1) ne] obtain x s1
      where s1: "popFront s = (Inr x, s1)" by blast
    from popFront_inv [OF Cons.prems(1) s1] have inv1: "subsetInv coins s1"
      and len: "length (idxs s1) = length (idxs s) - 1" by simp_all
    from Cons.prems PopFront len have "popsNonEmpty (length (idxs s1)) ops"
      and "\<forall>i \<in> set (pushedIdxs ops). inRange coins i" by simp_all
    from Cons.IH [OF inv1 this] s1 PopFront show ?thesis by simp
  qed
qed

text \<open>
  Claim C3. For every collection \<open>coins\<close>, every initial index list \<open>ixs\<close> and every
  sequence \<open>ops\<close> of \<^verbatim>\<open>pushBack\<close>, \<^verbatim>\<open>popBack\<close> and \<^verbatim>\<open>popFront\<close>: if
  \<^verbatim>\<open>newSubset\<close> builds the subset and the sequence runs to its end (no pop meets an
  empty subset, no index is outside the collection), then in the subset it leaves
  \<open>totalValue\<close> is the sum of \<^verbatim>\<open>Amount()\<close> over the indices it holds and
  \<open>totalValueAge\<close> is the sum of \<^verbatim>\<open>ValueAge()\<close> over them, both sums taken with Go's
  64-bit addition. The sequence does run to its end whenever no pop meets an empty
  subset and all indices, initial and pushed, are indices of the collection. The coins
  are values of the model, so their amount and value-age are constant.
\<close>

theorem subset_totals_invariant:
  "(newSubset coins ixs = Inr s0 \<longrightarrow> applyOps ops s0 = (Inr (), s) \<longrightarrow>
      totalValue s = sumAmount coins (idxs s) \<and>
      totalValueAge s = sumValueAge coins (idxs s) \<and>
      set' s = coins \<and> (\<forall>i \<in> set (idxs s). inRange coins i)) \<and>
   ((\<forall>i \<in> set ixs \<union> set (pushedIdxs ops). inRange coins i) \<longrightarrow>
      popsNonEmpty (length ixs) ops \<longrightarrow>
      (\<exists>s0 s. newSubset coins ixs = Inr s0 \<and> applyOps ops s0 = (Inr (), s)))"
proof (intro conjI impI)
  assume built: "newSubset coins ixs = Inr s0" and run: "applyOps ops s0 = (Inr (), s)"
  from newSubset_inv [OF built] have "subsetInv coins s0" ..
  from applyOps_inv [OF this run] have inv: "subsetInv coins s" .
  from inv show "totalValue s = sumAmount coins (idxs s)"
    by (simp add: subsetInv_def)
  from inv show "totalValueAge s = sumValueAge coins (idxs s)"
    by (simp add: subsetInv_def)
  from inv show "set' s = coins"
    by (simp add: subsetInv_def)
  from inv show "\<forall>i \<in> set (idxs s). inRange coins i"
    by (simp add: subsetInv_def)
next
  assume range: "\<forall>i \<in> set ixs \<union> set (pushedIdxs ops). inRange coins i"
    and pops: "popsNonEmpty (length ixs) ops"
  from range have "\<forall>i \<in> set ixs. inRange coins i" by simp
  from newSubsetLoop_total [OF this] obtain s0 where built: "newSubset coins ixs = Inr s0"
    unfolding newSubset_def by blast
  from newSubset_inv [OF built] have inv: "subsetInv coins s0" and ix: "idxs s0 = ixs"
    by simp_all
  from pops ix have "popsNonEmpty (length (idxs s0)) ops" by simp
  moreover from range have "\<forall>i \<in> set (pushedIdxs ops). inRange coins i" by simp
  ultimately obtain s where "applyOps ops s0 = (Inr (), s)"
    using applyOps_total [OF inv] by blast
  with built show "\<exists>s0 s. newSubset coins ixs = Inr s0 \<and> applyOps ops s0 = (Inr (), s)"
    by blast
qed

theorem subset_totals_invariant_witness:
  "newSubset \<lparr>elems = [\<lparr>Amount = 500, ValueAge = 5\<rparr>, \<lparr>Amount = 100, ValueAge = 7\<rparr>,
                        \<lparr>Amount = 400, ValueAge = 9\<rparr>], swaps = []\<rparr> [0]
     = Inr \<lparr>set' = \<lparr>elems = [\<lparr>Amount = 500, ValueAge = 5\<rparr>, \<lparr>Amount = 100, ValueAge = 7\<rparr>,
                        \<lparr>Amount = 400, ValueAge = 9\<rparr>], swaps = []\<rparr>,
            idxs = [0], totalValue = 500, totalValueAge = 5\<rparr> \<and>
   applyOps [PushBack 2, PopFront, PushBack 1]
      \<lparr>set' = \<lparr>elems = [\<lparr>Amount = 500, ValueAge = 5\<rparr>, \<lparr>Amount = 100, ValueAge = 7\<rparr>,
                        \<lparr>Amount = 400, ValueAge = 9\<rparr>], swaps = []\<rparr>,
            idxs = [0], totalValue = 500, totalValueAge = 5\<rparr>
     = (Inr (), \<lparr>set' = \<lparr>elems = [\<lparr>Amount = 500, ValueAge = 5\<rparr>, \<lparr>Amount = 100, ValueAge = 7\<rparr>,
                        \<lparr>Amount = 400, ValueAge = 9\<rparr>], swaps = []\<rparr>,
            idxs = [2, 1], totalValue = 500, totalValueAge = 16\<rparr>) \<and>
   sumAmount \<lparr>elems = [\<lparr>Amount = 500, ValueAge = 5\<rparr>, \<lparr>Amount = 100, ValueAge = 7\<rparr>,
                        \<lparr>Amount = 400, ValueAge = 9\<rparr>], swaps = []\<rparr> [2, 1] = 500 \<and>
   sumValueAge \<lparr>elems = [\<lparr>Amount = 500, ValueAge = 5\<rparr>, \<lparr>Amount = 100, ValueAge = 7\<rparr>,
                        \<lparr>Amount = 400, ValueAge = 9\<rparr>], swaps = []\<rparr> [2, 1] = 16 \<and>
   pushedIdxs [PushBack 2, PopFront, PushBack 1] = [2, 1] \<and>
   inRange \<lparr>elems = [\<lparr>Amount = 500, ValueAge = 5\<rparr>, \<lparr>Amount = 100, ValueAge = 7\<rparr>,
                        \<lparr>Amount = 400, ValueAge = 9\<rparr>], swaps = []\<rparr> 0 \<and>
   inRange \<lparr>elems = [\<lparr>Amount = 500, ValueAge = 5\<rparr>, \<lparr>Amount = 100, ValueAge = 7\<rparr>,
                        \<lparr>Amount = 400, ValueAge = 9\<rparr>], swaps = []\<rparr> 2 \<and>
   inRange \<lparr>elems = [\<lparr>Amount = 500, ValueAge = 5\<rparr>, \<lparr>Amount = 100, ValueAge = 7\<rparr>,
                        \<lparr>Amount = 400, ValueAge = 9\<rparr>], swaps = []\<rparr> 1 \<and>
   popsNonEmpty (length [0 :: int]) [PushBack 2, PopFront, PushBack 1]"
  (is "?built \<and> ?run \<and> ?sa \<and> ?sv \<and> ?pushed \<and> ?r0 \<and> ?r2 \<and> ?r1 \<and> ?pops")
proof -
  have built: ?built
    by (simp add: newSubset_def Coin_def index_def)
  have run: ?run
    by (simp add: pushBack_def popFront_def subTotals_def ValueAgeCoin_def index_def Let_def)
  have range: ?pushed ?r0 ?r2 ?r1
    by (simp_all add: inRange_def Len_def)
  have pops: ?pops
    by simp
  from subset_totals_invariant [THEN conjunct1, rule_format, OF built run]
  have ?sa and ?sv by simp_all
  with built run range pops show ?thesis
    by blast
qed

text \<open>
  Claim C4, with the failure the source has. For every subset whose index list is empty,
  \<^verbatim>\<open>popBack\<close> and \<^verbatim>\<open>popFront\<close> fail with Go's run-time panic for an index out of
  range, raised by the first statement of the method, and leave the subset, and so both
  totals and the index list, as they were.
\<close>

theorem pop_empty_panics:
  assumes "idxs s = []"
  shows "popBack s = (Inl PanicIndexOutOfRange, s) \<and> popFront s = (Inl PanicIndexOutOfRange, s)"
  using assms by (simp add: popBack_def popFront_def)

theorem pop_empty_panics_witness:
  "idxs \<lparr>set' = \<lparr>elems = [\<lparr>Amount = 500, ValueAge = 5\<rparr>], swaps = []\<rparr>,
          idxs = [], totalValue = 0, totalValueAge = 0\<rparr> = [] \<and>
   popBack \<lparr>set' = \<lparr>elems = [\<lparr>Amount = 500, ValueAge = 5\<rparr>], swaps = []\<rparr>,
          idxs = [], totalValue = 0, totalValueAge = 0\<rparr>
     = (Inl PanicIndexOutOfRange,
        \<lparr>set' = \<lparr>elems = [\<lparr>Amount = 500, ValueAge = 5\<rparr>], swaps = []\<rparr>,
          idxs = [], totalValue = 0, totalValueAge = 0\<rparr>) \<and>
   popFront \<lparr>set' = \<lparr>elems = [\<lparr>Amount = 500, ValueAge = 5\<rparr>], swaps = []\<rparr>,
          idxs = [], totalValue = 0, totalValueAge = 0\<rparr>
     = (Inl PanicIndexOutOfRange,
        \<lparr>set' = \<lparr>elems = [\<lparr>Amount = 500, ValueAge = 5\<rparr>], swaps = []\<rparr>,
          idxs = [], totalValue = 0, totalValueAge = 0\<rparr>)"
  using pop_empty_panics [of "\<lparr>set' = \<lparr>elems = [\<lparr>Amount = 500, ValueAge = 5\<rparr>], swaps = []\<rparr>,
          idxs = [], totalValue = 0, totalValueAge = 0\<rparr>"]
  by simp

text \<open>
  Claim C4 as it is written names an error \<open>EmptySubset\<close>. The source declares no such
  error, and the two methods return a coin only: on the empty subset built by
  \<^verbatim>\<open>newSubset\<close> neither pop fails with \<open>EmptySubset\<close>.
\<close>

theorem pop_empty_counterexample:
  "newSubset \<lparr>elems = [\<lparr>Amount = 500, ValueAge = 5\<rparr>], swaps = []\<rparr> []
     = Inr \<lparr>set' = \<lparr>elems = [\<lparr>Amount = 500, ValueAge = 5\<rparr>], swaps = []\<rparr>,
            idxs = [], totalValue = 0, totalValueAge = 0\<rparr> \<and>
   fst (popBack \<lparr>set' = \<lparr>elems = [\<lparr>Amount = 500, ValueAge = 5\<rparr>], swaps = []\<rparr>,
            idxs = [], totalValue = 0, totalValueAge = 0\<rparr>) \<noteq> Inl EmptySubset \<and>
   fst (popFront \<lparr>set' = \<lparr>elems = [\<lparr>Amount = 500, ValueAge = 5\<rparr>], swaps = []\<rparr>,
            idxs = [], totalValue = 0, totalValueAge = 0\<rparr>) \<noteq> Inl EmptySubset"
  by (simp add: newSubset_def popBack_def popFront_def)

subsection \<open>The scan in index order\<close>

lemma AmountCoin_nat:
  "i < length (elems c) \<Longrightarrow> AmountCoin c (int i) = Inr (elems c ! i)"
  by (simp add: AmountCoin_def index_def)




lemma selectLoop_Inr:
  "selectLoop a target coins numCoins i sel tot = Inr ixs \<Longrightarrow> length sel = i \<Longrightarrow>
   \<exists>k. i \<le> k \<and> int k < numCoins \<and> int k < MaxInputs a \<and> ixs = map int [0..<Suc k]"
proof (induction a target coins numCoins i sel tot rule: selectLoop.induct)
  case (1 a target coins numCoins i sel tot)
  from "1.prems"(1) have guard: "int i < numCoins" "int i < MaxInputs a"
    by (subst (asm) selectLoop.simps, simp split: if_splits)+
  with "1.prems"(1) obtain coin where coin: "AmountCoin coins (int i) = Inr coin"
    by (subst (asm) selectLoop.simps) (auto split: sum.splits)
  show ?case
  proof (cases "satisfiesTargetAmount target (MinChangeAmount a) (tot + Amount coin)")
    case True
    with guard coin "1.prems" have "ixs = map int [0..<Suc i]"
      by (subst (asm) selectLoop.simps) auto
    with guard show ?thesis by blast
  next
    case False
    with guard coin "1.prems"(1)
    have "selectLoop a target coins numCoins (Suc i) (sel @ [coin]) (tot + Amount coin) = Inr ixs"
      by (subst (asm) selectLoop.simps) simp
    from "1.IH" [OF _ coin False this] guard "1.prems"(2)
    obtain k where "Suc i \<le> k" "int k < numCoins" "int k < MaxInputs a" "ixs = map int [0..<Suc k]"
      by auto
    then show ?thesis
      by (intro exI [of _ k]) simp
  qed
qed

lemma selectLoop_not_panic:
  "selectLoop a target coins (Len coins) i sel tot \<noteq> Inl PanicIndexOutOfRange \<and>
   selectLoop a target coins (Len coins) i sel tot \<noteq> Inl PanicMakeSliceCap \<and>
   selectLoop a target coins (Len coins) i sel tot \<noteq> Inl EmptySubset"
proof (induction "length (elems coins) - i" arbitrary: i sel tot)
  case 0
  then show ?case
    by (subst selectLoop.simps, simp add: Len_def)+
next
  case (Suc d)
  then have i: "i < length (elems coins)" by simp
  from Suc.hyps(2) have "d = length (elems coins) - Suc i" by simp
  from Suc.hyps(1) [OF this] i show ?case
    by (subst selectLoop.simps, simp add: Len_def AmountCoin_nat)+
qed


lemma SelectMinIndex_Inr:
  assumes "fst (SelectMinIndex a target coins) = Inr ixs"
  shows "\<exists>k. k < length (elems coins) \<and> int k < MaxInputs a \<and> ixs = map int [0..<Suc k]"
proof -
  from assms have "selectLoop a target coins (Len coins) 0 [] 0 = Inr ixs"
    by (simp add: SelectMinIndex_def split: if_splits)
  from selectLoop_Inr [OF this] show ?thesis
    by (auto simp add: Len_def)
qed









subsection \<open>Sorting through Less and Swap\<close>

lemma comparesBy_byAmount: "comparesBy (\<lambda>c. sint (Amount c)) byAmount_Less"
  by (simp add: comparesBy_def byAmount_Less_def AmountCoin_def index_def word_sless_alt)

lemma comparesBy_byValueAge: "comparesBy (\<lambda>c. sint (ValueAge c)) byValueAge_Less"
  by (simp add: comparesBy_def byValueAge_Less_def ValueAgeCoin_def index_def word_sless_alt)

lemma comparesBy_Reverse:
  "comparesBy key lessf \<Longrightarrow> comparesBy (\<lambda>c. - key c) (Reverse lessf)"
  by (simp add: comparesBy_def Reverse_def)

lemma set_sinkInto: "set (sinkInto key x rs) = insert x (set rs)"
  by (induction rs) auto

lemma mset_sinkInto: "mset (sinkInto key x rs) = add_mset x (mset rs)"
  by (induction rs) auto

lemma length_sinkInto: "length (sinkInto key x rs) = Suc (length rs)"
  by (induction rs) auto

lemma sorted_sinkInto:
  "sorted (map key (rev rs)) \<Longrightarrow> sorted (map key (rev (sinkInto key x rs)))"
proof (induction rs)
  case Nil
  then show ?case by simp
next
  case (Cons y rs)
  then have rs: "sorted (map key (rev rs))" and le: "\<forall>z \<in> set rs. key z \<le> key y"
    by (auto simp add: sorted_append)
  show ?case
  proof (cases "key x < key y")
    case True
    with Cons.IH [OF rs] le show ?thesis
      by (auto simp add: sorted_append set_sinkInto)
  next
    case False
    with Cons.prems le show ?thesis
      by (fastforce simp add: sorted_append)
  qed
qed

lemma swapElems_adjacent:
  "swapElems (rev rs @ y # x # zs) (int (Suc (length rs)), int (length rs)) = rev rs @ x # y # zs"
  by (simp add: swapElems_def nth_append list_update_append del: of_nat_Suc)

lemma Swap_adjacent:
  assumes "elems c = rev rs @ y # x # zs"
  shows "Swap (int (Suc (length rs))) (int (Suc (length rs)) - 1) c =
    (Inr (), \<lparr>elems = rev rs @ x # y # zs,
              swaps = swaps c @ [(int (Suc (length rs)), int (length rs))]\<rparr>)"
proof -
  have "int (Suc (length rs)) - 1 = int (length rs)" by simp
  with assms swapElems_adjacent [of rs y x zs] show ?thesis
    by (simp add: Swap_def Len_def)
qed

lemma insertionInner_sinks:
  assumes cmp: "comparesBy key lessf"
  shows "elems c = rev rs @ x # zs \<Longrightarrow>
    insertionInner lessf 0 (length rs) c =
      (Inr (), \<lparr>elems = rev (sinkInto key x rs) @ zs, swaps = swaps c @ sinkSwaps key x rs\<rparr>)"
proof (induction rs arbitrary: c zs)
  case Nil
  then show ?case
    by (subst insertionInner.simps) simp
next
  case (Cons y rs)
  let ?j = "Suc (length rs)"
  from Cons.prems have el: "elems c = rev rs @ y # x # zs" by simp
  then have at: "elems c ! ?j = x" "elems c ! length rs = y" "?j < length (elems c)"
    by (simp_all add: nth_append)
  have pred: "int ?j - 1 = int (length rs)" by simp
  from cmp at have lessf: "lessf (int ?j) (int ?j - 1) c = Inr (key x < key y)"
    unfolding pred comparesBy_def by (metis Suc_lessD)
  show ?case
  proof (cases "key x < key y")
    case False
    with lessf Cons.prems show ?thesis
      by (subst insertionInner.simps) simp
  next
    case True
    let ?c' = "\<lparr>elems = rev rs @ x # y # zs, swaps = swaps c @ [(int ?j, int (length rs))]\<rparr>"
    have "elems ?c' = rev rs @ x # (y # zs)" by simp
    from Cons.IH [OF this] True lessf Swap_adjacent [OF el] show ?thesis
      by (subst insertionInner.simps) simp
  qed
qed

lemma foldl_sinkSwaps:
  "foldl swapElems (rev rs @ x # zs) (sinkSwaps key x rs) = rev (sinkInto key x rs) @ zs"
proof (induction rs arbitrary: zs)
  case Nil
  then show ?case by simp
next
  case (Cons y rs)
  from Cons.IH [of "y # zs"] swapElems_adjacent [of rs y x zs] show ?case
    by simp
qed


lemma reorderedBySwaps_refl: "reorderedBySwaps c c"
  by (simp add: reorderedBySwaps_def)

lemma reorderedBySwaps_appended:
  "reorderedBySwaps c c' \<longleftrightarrow>
     mset (elems c') = mset (elems c) \<and>
     (\<exists>sw. swaps c' = swaps c @ sw \<and> foldl swapElems (elems c) sw = elems c')"
proof
  assume r: "reorderedBySwaps c c'"
  then have "swaps c' = swaps c @ drop (length (swaps c)) (swaps c')"
    by (metis append_take_drop_id reorderedBySwaps_def)
  with r show "mset (elems c') = mset (elems c) \<and>
     (\<exists>sw. swaps c' = swaps c @ sw \<and> foldl swapElems (elems c) sw = elems c')"
    unfolding reorderedBySwaps_def by blast
next
  assume "mset (elems c') = mset (elems c) \<and>
     (\<exists>sw. swaps c' = swaps c @ sw \<and> foldl swapElems (elems c) sw = elems c')"
  then show "reorderedBySwaps c c'"
    by (auto simp add: reorderedBySwaps_def)
qed

lemma reorderedBySwaps_trans:
  assumes "reorderedBySwaps a b" and "reorderedBySwaps b c"
  shows "reorderedBySwaps a c"
proof -
  from assms(1) obtain s1 where s1: "swaps b = swaps a @ s1"
    "foldl swapElems (elems a) s1 = elems b" and m1: "mset (elems b) = mset (elems a)"
    unfolding reorderedBySwaps_appended by blast
  from assms(2) obtain s2 where s2: "swaps c = swaps b @ s2"
    "foldl swapElems (elems b) s2 = elems c" and m2: "mset (elems c) = mset (elems b)"
    unfolding reorderedBySwaps_appended by blast
  from s1 s2 have "swaps c = swaps a @ (s1 @ s2)"
    and "foldl swapElems (elems a) (s1 @ s2) = elems c"
    by simp_all
  with m1 m2 show ?thesis
    unfolding reorderedBySwaps_appended by metis
qed

lemma insertionInner_step:
  assumes cmp: "comparesBy key lessf" and i: "i < length (elems c)"
    and sorted: "sorted (map key (take i (elems c)))"
  shows "\<exists>c1. insertionInner lessf 0 i c = (Inr (), c1) \<and>
     length (elems c1) = length (elems c) \<and>
     sorted (map key (take (Suc i) (elems c1))) \<and> reorderedBySwaps c c1"
proof -
  from id_take_nth_drop [OF i]
  have "elems c = rev (rev (take i (elems c))) @ elems c ! i # drop (Suc i) (elems c)"
    by simp
  moreover from i have "length (rev (take i (elems c))) = i"
    by simp
  ultimately obtain rs x zs where split: "elems c = rev rs @ x # zs" and len: "length rs = i"
    by blast
  define c1 where "c1 = \<lparr>elems = rev (sinkInto key x rs) @ zs,
    swaps = swaps c @ sinkSwaps key x rs\<rparr>"
  from insertionInner_sinks [OF cmp split] len
  have run: "insertionInner lessf 0 i c = (Inr (), c1)"
    by (simp add: c1_def)
  have l1: "length (elems c1) = length (elems c)"
    by (simp add: c1_def split length_sinkInto)
  from split len have "take i (elems c) = rev rs"
    by simp
  with sorted have "sorted (map key (rev (sinkInto key x rs)))"
    by (intro sorted_sinkInto) simp
  moreover from len have "take (Suc i) (elems c1) = rev (sinkInto key x rs)"
    by (simp add: c1_def length_sinkInto)
  ultimately have s1: "sorted (map key (take (Suc i) (elems c1)))"
    by simp
  have m: "mset (elems c1) = mset (elems c)"
    by (simp add: c1_def split mset_sinkInto)
  have "foldl swapElems (elems c) (sinkSwaps key x rs) = elems c1"
    by (simp add: c1_def split foldl_sinkSwaps)
  moreover have "swaps c1 = swaps c @ sinkSwaps key x rs"
    by (simp add: c1_def)
  ultimately have "reorderedBySwaps c c1"
    using m unfolding reorderedBySwaps_appended by blast
  with run l1 s1 show ?thesis
    by blast
qed

lemma insertionOuter_sorts:
  assumes cmp: "comparesBy key lessf"
  shows "sorted (map key (take i (elems c))) \<Longrightarrow>
    \<exists>c'. insertionOuter lessf 0 (length (elems c)) i c = (Inr (), c') \<and>
      sorted (map key (elems c')) \<and> reorderedBySwaps c c'"
proof (induction "length (elems c) - i" arbitrary: i c)
  case 0
  then have "take i (elems c) = elems c" by simp
  with 0 show ?case
    by (subst insertionOuter.simps) (simp add: reorderedBySwaps_refl)
next
  case (Suc d)
  then have i: "i < length (elems c)" by simp
  from insertionInner_step [OF cmp i Suc.prems] obtain c1
    where run: "insertionInner lessf 0 i c = (Inr (), c1)"
      and len: "length (elems c1) = length (elems c)"
      and sorted1: "sorted (map key (take (Suc i) (elems c1)))"
      and re1: "reorderedBySwaps c c1"
    by blast
  from Suc.hyps(2) len have "d = length (elems c1) - Suc i" by simp
  from Suc.hyps(1) [OF this sorted1] len obtain c'
    where rest: "insertionOuter lessf 0 (length (elems c)) (Suc i) c1 = (Inr (), c')"
      and sorted': "sorted (map key (elems c'))" and re': "reorderedBySwaps c1 c'"
    by auto
  from i run rest have "insertionOuter lessf 0 (length (elems c)) i c = (Inr (), c')"
    by (subst insertionOuter.simps) simp
  with sorted' reorderedBySwaps_trans [OF re1 re'] show ?case
    by blast
qed

lemma sort_Sort_sorts:
  assumes "comparesBy key lessf"
  shows "\<exists>c'. sort_Sort lessf c = (Inr (), c') \<and>
      sorted (map key (elems c')) \<and> reorderedBySwaps c c'"
proof -
  have "sorted (map key (take (0 + 1) (elems c)))"
    by (cases "elems c") simp_all
  from insertionOuter_sorts [OF assms this] show ?thesis
    by (simp add: sort_Sort_def insertionSort_def Len_def)
qed

lemma nonIncreasing_sorted:
  "nonIncreasing f xs \<longleftrightarrow> sorted (map (\<lambda>c. - sint (f c)) xs)"
  by (simp add: nonIncreasing_def sorted_map word_sle_eq)

lemma nonDecreasing_sorted:
  "nonDecreasing f xs \<longleftrightarrow> sorted (map (\<lambda>c. sint (f c)) xs)"
  by (simp add: nonDecreasing_def sorted_map word_sle_eq)

lemma sort_Reverse_byAmount:
  "\<exists>c'. sort_Sort (Reverse byAmount_Less) c = (Inr (), c') \<and>
      nonIncreasing Amount (elems c') \<and> reorderedBySwaps c c'"
  using sort_Sort_sorts [OF comparesBy_Reverse [OF comparesBy_byAmount], of c]
  by (simp add: nonIncreasing_sorted)

lemma sort_Reverse_byValueAge:
  "\<exists>c'. sort_Sort (Reverse byValueAge_Less) c = (Inr (), c') \<and>
      nonIncreasing ValueAge (elems c') \<and> reorderedBySwaps c c'"
  using sort_Sort_sorts [OF comparesBy_Reverse [OF comparesBy_byValueAge], of c]
  by (simp add: nonIncreasing_sorted)

lemma sort_byValueAge:
  "\<exists>c'. sort_Sort byValueAge_Less c = (Inr (), c') \<and>
      nonDecreasing ValueAge (elems c') \<and> reorderedBySwaps c c'"
  using sort_Sort_sorts [OF comparesBy_byValueAge, of c]
  by (simp add: nonDecreasing_sorted)

subsection \<open>The selection policies\<close>

lemma findCutoff_none:
  "\<forall>c \<in> set (elems coins). \<not> m \<le>s ValueAge c \<Longrightarrow>
   findCutoff m coins (Len coins) i = Inr (- 1)"
proof (induction "length (elems coins) - i" arbitrary: i)
  case 0
  then show ?case
    by (subst findCutoff.simps) (simp add: Len_def)
next
  case (Suc d)
  then have i: "i < length (elems coins)" by simp
  with Suc.prems have "\<not> m \<le>s ValueAge (elems coins ! i)" by simp
  moreover from Suc.hyps(2) have "d = length (elems coins) - Suc i" by simp
  from Suc.hyps(1) [OF this Suc.prems]
  have "findCutoff m coins (Len coins) (Suc i) = Inr (- 1)" .
  ultimately show ?case
    using i by (subst findCutoff.simps) (simp add: Len_def ValueAgeCoin_def index_def)
qed

lemma SelectMinIndex_budget:
  assumes "fst (SelectMinIndex a target coins) = Inr ixs"
  shows "int (length ixs) \<le> MaxInputs a"
  using SelectMinIndex_Inr [OF assms] by auto

lemma MinNumberSelect_budget:
  assumes "fst (MinNumberSelect a target coins) = Inr ixs"
  shows "int (length ixs) \<le> MaxInputs a"
proof -
  from sort_Reverse_byAmount [of coins] obtain coins'
    where "sort_Sort (Reverse byAmount_Less) coins = (Inr (), coins')"
    by blast
  with assms have "fst (SelectMinIndex a target coins') = Inr ixs"
    by (simp add: MinNumberSelect_def)
  then show ?thesis
    by (rule SelectMinIndex_budget)
qed

lemma MaxValueAgeSelect_budget:
  assumes "fst (MaxValueAgeSelect a target coins) = Inr ixs"
  shows "int (length ixs) \<le> MaxInputs a"
proof -
  from sort_Reverse_byValueAge [of coins] obtain coins'
    where "sort_Sort (Reverse byValueAge_Less) coins = (Inr (), coins')"
    by blast
  with assms have "fst (SelectMinIndex a target coins') = Inr ixs"
    by (simp add: MaxValueAgeSelect_def)
  then show ?thesis
    by (rule SelectMinIndex_budget)
qed

text \<open>
  Claim C5. The collection holds coins of the amounts 500, 100 and 400, the target is
  700, \<^verbatim>\<open>MaxInputs\<close> is 3 and \<^verbatim>\<open>MinChangeAmount\<close> is 0. \<^verbatim>\<open>MinNumberSelect\<close>
  leaves the collection in the order 500, 400, 100, reached by one call of \<^verbatim>\<open>Swap\<close>,
  and returns the indices 0 and 1 of that order, whose amounts add up to 900.
\<close>

theorem MinNumberSelect_scenario_A:
  "MinNumberSelect \<lparr>MaxInputs = 3, MinChangeAmount = 0\<rparr> 700
     \<lparr>elems = [\<lparr>Amount = 500, ValueAge = v1\<rparr>, \<lparr>Amount = 100, ValueAge = v2\<rparr>,
               \<lparr>Amount = 400, ValueAge = v3\<rparr>], swaps = sw\<rparr>
     = (Inr [0, 1],
        \<lparr>elems = [\<lparr>Amount = 500, ValueAge = v1\<rparr>, \<lparr>Amount = 400, ValueAge = v3\<rparr>,
                  \<lparr>Amount = 100, ValueAge = v2\<rparr>], swaps = sw @ [(2, 1)]\<rparr>) \<and>
   map Amount [\<lparr>Amount = 500, ValueAge = v1\<rparr>, \<lparr>Amount = 400, ValueAge = v3\<rparr>,
               \<lparr>Amount = 100, ValueAge = v2\<rparr>] = [500, 400, 100] \<and>
   sumAmount \<lparr>elems = [\<lparr>Amount = 500, ValueAge = v1\<rparr>, \<lparr>Amount = 400, ValueAge = v3\<rparr>,
                        \<lparr>Amount = 100, ValueAge = v2\<rparr>], swaps = sw @ [(2, 1)]\<rparr> [0, 1]
     = 900"
  by code_simp

text \<open>
  Claim C6. Whatever the arguments and the outcome, \<^verbatim>\<open>MinNumberSelect\<close> leaves the
  caller's collection in non-increasing order of amount, holding the same coins and
  reordered by calls of \<^verbatim>\<open>Swap\<close> only, and its result is that of \<^verbatim>\<open>SelectMinIndex\<close>
  on the collection so ordered; \<^verbatim>\<open>MaxValueAgeSelect\<close> does the same with the
  non-increasing order of value-age. Neither restores the order the collection had: a
  collection that was not in that order has changed after the call.
\<close>

theorem wrappers_sort_in_place:
  "nonIncreasing Amount (elems (snd (MinNumberSelect a target coins))) \<and>
   reorderedBySwaps coins (snd (MinNumberSelect a target coins)) \<and>
   MinNumberSelect a target coins
     = SelectMinIndex a target (snd (MinNumberSelect a target coins)) \<and>
   (\<not> nonIncreasing Amount (elems coins) \<longrightarrow>
      elems (snd (MinNumberSelect a target coins)) \<noteq> elems coins) \<and>
   nonIncreasing ValueAge (elems (snd (MaxValueAgeSelect a target coins))) \<and>
   reorderedBySwaps coins (snd (MaxValueAgeSelect a target coins)) \<and>
   MaxValueAgeSelect a target coins
     = SelectMinIndex a target (snd (MaxValueAgeSelect a target coins)) \<and>
   (\<not> nonIncreasing ValueAge (elems coins) \<longrightarrow>
      elems (snd (MaxValueAgeSelect a target coins)) \<noteq> elems coins)"
proof -
  from sort_Reverse_byAmount [of coins] obtain c1
    where s1: "sort_Sort (Reverse byAmount_Less) coins = (Inr (), c1)"
      and n1: "nonIncreasing Amount (elems c1)" and r1: "reorderedBySwaps coins c1"
    by blast
  have frame1: "snd (SelectMinIndex a target c1) = c1"
    by (simp add: SelectMinIndex_def)
  from s1 have m1: "MinNumberSelect a target coins = SelectMinIndex a target c1"
    by (simp add: MinNumberSelect_def)
  from sort_Reverse_byValueAge [of coins] obtain c2
    where s2: "sort_Sort (Reverse byValueAge_Less) coins = (Inr (), c2)"
      and n2: "nonIncreasing ValueAge (elems c2)" and r2: "reorderedBySwaps coins c2"
    by blast
  have frame2: "snd (SelectMinIndex a target c2) = c2"
    by (simp add: SelectMinIndex_def)
  from s2 have m2: "MaxValueAgeSelect a target coins = SelectMinIndex a target c2"
    by (simp add: MaxValueAgeSelect_def)
  from n1 r1 n2 r2 show ?thesis
    unfolding m1 m2 frame1 frame2 by auto
qed

theorem wrappers_sort_in_place_witness:
  "\<not> nonIncreasing Amount (elems \<lparr>elems = [\<lparr>Amount = 500, ValueAge = 5\<rparr>, \<lparr>Amount = 100, ValueAge = 7\<rparr>,
                \<lparr>Amount = 400, ValueAge = 9\<rparr>], swaps = []\<rparr>) \<and>
   elems (snd (MinNumberSelect \<lparr>MaxInputs = 3, MinChangeAmount = 0\<rparr> 700 \<lparr>elems = [\<lparr>Amount = 500, ValueAge = 5\<rparr>, \<lparr>Amount = 100, ValueAge = 7\<rparr>,
                \<lparr>Amount = 400, ValueAge = 9\<rparr>], swaps = []\<rparr>)) \<noteq> elems \<lparr>elems = [\<lparr>Amount = 500, ValueAge = 5\<rparr>, \<lparr>Amount = 100, ValueAge = 7\<rparr>,
                \<lparr>Amount = 400, ValueAge = 9\<rparr>], swaps = []\<rparr> \<and>
   \<not> nonIncreasing ValueAge (elems \<lparr>elems = [\<lparr>Amount = 500, ValueAge = 5\<rparr>, \<lparr>Amount = 100, ValueAge = 7\<rparr>,
                \<lparr>Amount = 400, ValueAge = 9\<rparr>], swaps = []\<rparr>) \<and>
   elems (snd (MaxValueAgeSelect \<lparr>MaxInputs = 3, MinChangeAmount = 0\<rparr> 700 \<lparr>elems = [\<lparr>Amount = 500, ValueAge = 5\<rparr>, \<lparr>Amount = 100, ValueAge = 7\<rparr>,
                \<lparr>Amount = 400, ValueAge = 9\<rparr>], swaps = []\<rparr>)) \<noteq> elems \<lparr>elems = [\<lparr>Amount = 500, ValueAge = 5\<rparr>, \<lparr>Amount = 100, ValueAge = 7\<rparr>,
                \<lparr>Amount = 400, ValueAge = 9\<rparr>], swaps = []\<rparr>"
  (is "?h1 \<and> ?c1 \<and> ?h2 \<and> ?c2")
proof -
  have h1: ?h1 and h2: ?h2
    by (simp_all add: nonIncreasing_def word_sle_eq)
  from wrappers_sort_in_place [of "\<lparr>MaxInputs = 3, MinChangeAmount = 0\<rparr>" 700 "\<lparr>elems = [\<lparr>Amount = 500, ValueAge = 5\<rparr>, \<lparr>Amount = 100, ValueAge = 7\<rparr>,
                \<lparr>Amount = 400, ValueAge = 9\<rparr>], swaps = []\<rparr>"] h1 h2 have ?c1 and ?c2
    by blast+
  with h1 h2 show ?thesis
    by blast
qed

text \<open>
  Claim C8. For every collection and every threshold \<open>minAvgValueAgePerInput\<close>: if,
  once \<^verbatim>\<open>MinPrioritySelect\<close> has sorted the collection ascending by value-age, no coin
  has a value-age at or above the threshold, then \<^verbatim>\<open>MinPrioritySelect\<close> returns
  \<open>ErrCoinsNoSelectionAvailable\<close>, whatever the loop over the windows would do.
\<close>

theorem MinPrioritySelect_no_cutoff:
  assumes "\<forall>c \<in> set (elems (snd (sort_Sort byValueAge_Less coins))).
             \<not> minAvgValueAgePerInput \<le>s ValueAge c"
  shows "fst (MinPrioritySelect windows a minAvgValueAgePerInput target coins)
           = Inl ErrCoinsNoSelectionAvailable"
proof -
  from sort_byValueAge [of coins] obtain coins'
    where sorted: "sort_Sort byValueAge_Less coins = (Inr (), coins')"
    by blast
  with assms have "\<forall>c \<in> set (elems coins'). \<not> minAvgValueAgePerInput \<le>s ValueAge c"
    by simp
  from findCutoff_none [OF this]
  have "findCutoff minAvgValueAgePerInput coins' (Len coins') 0 = Inr (- 1)" .
  with sorted show ?thesis
    by (simp add: MinPrioritySelect_def)
qed

theorem MinPrioritySelect_no_cutoff_witness:
  "elems (snd (sort_Sort byValueAge_Less \<lparr>elems = [\<lparr>Amount = 500, ValueAge = 9\<rparr>, \<lparr>Amount = 100, ValueAge = 5\<rparr>,
                \<lparr>Amount = 400, ValueAge = 7\<rparr>], swaps = []\<rparr>))
     = [\<lparr>Amount = 100, ValueAge = 5\<rparr>, \<lparr>Amount = 400, ValueAge = 7\<rparr>,
        \<lparr>Amount = 500, ValueAge = 9\<rparr>] \<and>
   \<not> (10 :: int64) \<le>s 5 \<and> \<not> (10 :: int64) \<le>s 7 \<and> \<not> (10 :: int64) \<le>s 9 \<and>
   fst (MinPrioritySelect (\<lambda>a m t c k n. (Inr [0], c)) \<lparr>MaxInputs = 3, MinChangeAmount = 0\<rparr> 10 700 \<lparr>elems = [\<lparr>Amount = 500, ValueAge = 9\<rparr>, \<lparr>Amount = 100, ValueAge = 5\<rparr>,
                \<lparr>Amount = 400, ValueAge = 7\<rparr>], swaps = []\<rparr>)
     = Inl ErrCoinsNoSelectionAvailable"
  (is "?sorted \<and> ?v5 \<and> ?v7 \<and> ?v9 \<and> ?res")
proof -
  have sorted: ?sorted
    by code_simp
  have v: ?v5 ?v7 ?v9
    by (simp_all add: word_sle_eq)
  from sorted v have "\<forall>c \<in> set (elems (snd (sort_Sort byValueAge_Less \<lparr>elems = [\<lparr>Amount = 500, ValueAge = 9\<rparr>, \<lparr>Amount = 100, ValueAge = 5\<rparr>,
                \<lparr>Amount = 400, ValueAge = 7\<rparr>], swaps = []\<rparr>))).
      \<not> (10 :: int64) \<le>s ValueAge c"
    by simp
  from MinPrioritySelect_no_cutoff [OF this] have ?res .
  with sorted v show ?thesis
    by blast
qed

end
